theory Spec2Isabelle
  imports Main "HOL-Library.AList" "HOL-Library.Sublist"
begin

section \<open>The stock monitor (monitor.py) as HOL functions\<close>

subsection \<open>Data\<close>

text \<open>
  A \<open>datetime\<close> is an instant on the UTC time line, counted in microseconds (the
  resolution of Python's \<open>datetime\<close>); a \<open>timedelta\<close> is a difference of two instants,
  in microseconds as well.
\<close>

type_synonym instant = int

text \<open>
  A Python \<open>dict\<close> keeps its keys in insertion order: it is an association list with
  distinct keys. \<open>d[k] = v\<close> is \<open>AList.update k v d\<close> (the value is replaced in place when
  the key is there, the pair is appended otherwise), \<open>d.get(k)\<close> is \<open>map_of d k\<close> and
  \<open>d.values()\<close> is \<open>map snd d\<close>.
\<close>

type_synonym 'v dict = "(string \<times> 'v) list"

text \<open>One item object of the JSON answer, with the five keys the program reads.\<close>

record item =
  item_id :: string
  display_name :: string
  quantity :: int
  Date_Start :: string
  Date_End :: string

definition CATEGORIES :: "string list" where
  "CATEGORIES = [''seed_stock'', ''gear_stock'', ''egg_stock'']"

definition TARGET :: "string set" where
  "TARGET = {''Master Sprinkler'', ''Godly Sprinkler'', ''Bug Egg'', ''Bee Egg'',
             ''Burning Bud'', ''Sugar Apple'', ''Ember Lily'',
             ''Beanstalk'', ''Tanning Mirror'', ''Lightning Rod''}"

text \<open>\<open>POLL_AFTER_END\<close> is in seconds; \<open>seconds\<close> converts to the unit of instants.\<close>

definition POLL_AFTER_END :: int where
  "POLL_AFTER_END = 5"

definition seconds :: "int \<Rightarrow> int" where
  "seconds n = n * 1000000"

subsection \<open>\<open>aggregate_by_item_id\<close>\<close>

text \<open>
  The \<open>for\<close> loop over \<open>items\<close>, with the dictionary \<open>acc\<close> as accumulator;
  \<open>aggregate_step\<close> is its body. A new
  identifier appends a copy of the item (\<open>it.copy()\<close>, so the input list is never
  changed); a known one adds the quantity to the stored entry, in place.
\<close>

definition aggregate_step :: "item dict \<Rightarrow> item \<Rightarrow> item dict" where
  "aggregate_step acc it =
     (let iid = item_id it in
      if map_of acc iid = None
      then acc @ [(iid, it)]
      else AList.map_entry iid (\<lambda>a. a\<lparr>quantity := quantity a + quantity it\<rparr>) acc)"

fun aggregate_loop :: "item dict \<Rightarrow> item list \<Rightarrow> item dict" where
  "aggregate_loop acc [] = acc"
| "aggregate_loop acc (it # items) = aggregate_loop (aggregate_step acc it) items"

definition aggregate_by_item_id :: "item list \<Rightarrow> item list" where
  "aggregate_by_item_id items = map snd (aggregate_loop [] items)"

subsection \<open>The watchlist filter\<close>

text \<open>
  The comprehension
  \<^verbatim>\<open>[it for it in agg if it['display_name'] in TARGET and it['quantity'] > 0]\<close>,
  which \<open>monitor\<close> binds to \<open>found\<close> at both of its call sites.
\<close>

fun found :: "item list \<Rightarrow> item list" where
  "found [] = []"
| "found (it # agg) =
     (if display_name it \<in> TARGET \<and> quantity it > 0 then it # found agg else found agg)"

subsection \<open>\<open>fetch_stock\<close>\<close>

datatype error =
    ClientError
  | ResponseError nat
  | DecodeError
  | TypeError
  | ValueError

text \<open>
  What the HTTP client hands back: \<open>session.get\<close> either raises (a network error) or
  returns a response. Of a response the program reads the status (through
  \<open>raise_for_status\<close>, which raises for a status of 400 and above), the decoded body
  (\<open>None\<close> when \<open>resp.json()\<close> raises) and the \<open>Date\<close> header (\<open>None\<close> when absent).
\<close>

record response =
  status :: nat
  json :: "(string \<rightharpoonup> item list) option"
  header_Date :: "string option"

datatype get_result = Get_raises | Get_returns response

text \<open>
  \<open>strptime\<close> stands for the library call
  \<^verbatim>\<open>datetime.strptime(_, '%a, %d %b %Y %H:%M:%S GMT').replace(tzinfo=timezone.utc)\<close>:
  \<open>None\<close> is its \<open>ValueError\<close>. Called on a missing header (Python's \<open>None\<close>) it raises
  \<open>TypeError\<close>.
\<close>

definition fetch_stock ::
  "(string \<Rightarrow> instant option) \<Rightarrow> get_result \<Rightarrow> error + ((string \<rightharpoonup> item list) \<times> instant)" where
  "fetch_stock strptime g =
     (case g of
        Get_raises \<Rightarrow> Inl ClientError
      | Get_returns resp \<Rightarrow>
          if 400 \<le> status resp then Inl (ResponseError (status resp))
          else (case json resp of
                  None \<Rightarrow> Inl DecodeError
                | Some data \<Rightarrow>
                    (case header_Date resp of
                       None \<Rightarrow> Inl TypeError
                     | Some datehdr \<Rightarrow>
                         (case strptime datehdr of
                            None \<Rightarrow> Inl ValueError
                          | Some server_time \<Rightarrow> Inr (data, server_time)))))"

subsection \<open>\<open>monitor\<close>\<close>

text \<open>
  What the run does to the outside, in order: a fetch attempt, a sleep (its length in
  microseconds), the printed report of a session (category, start marker and the
  aggregated items listed), a call of \<open>send_email_alert\<close> (which catches every exception
  of the mail transport, so it always returns), and the line "no target items".
\<close>

datatype event =
    Fetch
  | Sleep int
  | Listing string string "item list"
  | Alert string "item list"
  | NoTarget string

text \<open>
  The variables of \<open>monitor\<close> that live across loop iterations. A value \<open>None\<close> in
  \<open>last_start\<close> is Python's \<open>None\<close>. The variable \<open>data\<close> is not part of the state:
  every path that reads it has assigned it from a fetch in the same iteration.
\<close>

record state =
  last_start :: "string option dict"
  expected_ends :: "instant dict"
  server_time :: instant
  trace :: "event list"

text \<open>\<open>data.get(cat, [])\<close>\<close>

definition data_get :: "(string \<rightharpoonup> item list) \<Rightarrow> string \<Rightarrow> item list" where
  "data_get data cat = (case data cat of None \<Rightarrow> [] | Some items \<Rightarrow> items)"

text \<open>\<open>last_start.get(cat)\<close>: \<open>None\<close> for a missing key and for a stored \<open>None\<close>.\<close>

definition last_start_get :: "string option dict \<Rightarrow> string \<Rightarrow> string option" where
  "last_start_get d cat = (case map_of d cat of None \<Rightarrow> None | Some v \<Rightarrow> v)"

text \<open>\<open>end.replace('Z', '+00:00')\<close>: every occurrence is replaced.\<close>

definition replace_Z :: "string \<Rightarrow> string" where
  "replace_Z s = concat (map (\<lambda>c. if c = CHR ''Z'' then ''+00:00'' else [c]) s)"

text \<open>
  \<open>fromisoformat\<close> stands for the library calls
  \<^verbatim>\<open>datetime.fromisoformat(_).astimezone(timezone.utc)\<close>: the instant the text
  denotes, or \<open>None\<close> for the \<open>ValueError\<close> of a malformed text.
\<close>

definition parse_end :: "(string \<Rightarrow> instant option) \<Rightarrow> string \<Rightarrow> instant option" where
  "parse_end fromisoformat s = fromisoformat (replace_Z s)"

text \<open>
  The report of a session inside the loop (lines 117 to 125): the listing of the
  aggregated items, then the alert when \<open>found\<close> is not empty, the "no target items"
  line otherwise.
\<close>

definition report_new :: "string \<Rightarrow> string \<Rightarrow> item list \<Rightarrow> event list" where
  "report_new cat start items =
     (let agg = aggregate_by_item_id items in
      Listing cat start agg #
      (if found agg \<noteq> [] then [Alert cat (found agg)] else [NoTarget cat]))"

text \<open>The report of the initial pass (lines 82 to 88) has no \<open>else\<close> branch.\<close>

definition report_initial :: "string \<Rightarrow> string \<Rightarrow> item list \<Rightarrow> event list" where
  "report_initial cat start items =
     (let agg = aggregate_by_item_id items in
      Listing cat start agg #
      (if found agg \<noteq> [] then [Alert cat (found agg)] else []))"

text \<open>
  The body of the first \<open>for cat in CATEGORIES\<close> (lines 75 to 88). An exception leaves
  the loop and \<open>monitor\<close>; the state it leaves behind is kept with the error.
\<close>

definition initial_category ::
  "(string \<Rightarrow> instant option) \<Rightarrow> (string \<rightharpoonup> item list) \<Rightarrow> string \<Rightarrow> state \<Rightarrow> (error \<times> state) + state" where
  "initial_category fromisoformat data cat st =
     (case data_get data cat of
        [] \<Rightarrow> Inr st
      | it0 # rest \<Rightarrow>
          (let st1 = st\<lparr>last_start := AList.update cat (Some (Date_Start it0)) (last_start st)\<rparr> in
           case parse_end fromisoformat (Date_End it0) of
             None \<Rightarrow> Inl (ValueError, st1)
           | Some e \<Rightarrow>
               Inr (st1\<lparr>expected_ends := AList.update cat e (expected_ends st1),
                        trace := trace st1 @ report_initial cat (Date_Start it0) (it0 # rest)\<rparr>)))"

fun initial_categories ::
  "(string \<Rightarrow> instant option) \<Rightarrow> (string \<rightharpoonup> item list) \<Rightarrow> string list \<Rightarrow> state \<Rightarrow> (error \<times> state) + state" where
  "initial_categories fromisoformat data [] st = Inr st"
| "initial_categories fromisoformat data (cat # cats) st =
     (case initial_category fromisoformat data cat st of
        Inl err \<Rightarrow> Inl err
      | Inr st' \<Rightarrow> initial_categories fromisoformat data cats st')"

text \<open>
  The body of the \<open>for cat in CATEGORIES\<close> inside \<open>while True\<close> (lines 108 to 126), on
  the state and the flag \<open>updated\<close>.
\<close>

definition track_category ::
  "(string \<Rightarrow> instant option) \<Rightarrow> (string \<rightharpoonup> item list) \<Rightarrow> string \<Rightarrow> state \<times> bool
     \<Rightarrow> (error \<times> state) + (state \<times> bool)" where
  "track_category fromisoformat data cat su =
     (case su of (st, updated) \<Rightarrow>
      (case data_get data cat of
         [] \<Rightarrow> Inr (st, updated)
       | it0 # rest \<Rightarrow>
           (let start = Date_Start it0 in
            if Some start \<noteq> last_start_get (last_start st) cat
            then
              (let st1 = st\<lparr>last_start := AList.update cat (Some start) (last_start st)\<rparr> in
               case parse_end fromisoformat (Date_End it0) of
                 None \<Rightarrow> Inl (ValueError, st1)
               | Some e \<Rightarrow>
                   Inr (st1\<lparr>expected_ends := AList.update cat e (expected_ends st1),
                            trace := trace st1 @ report_new cat start (it0 # rest)\<rparr>, True))
            else Inr (st, updated))))"

fun track_categories ::
  "(string \<Rightarrow> instant option) \<Rightarrow> (string \<rightharpoonup> item list) \<Rightarrow> string list \<Rightarrow> state \<times> bool
     \<Rightarrow> (error \<times> state) + (state \<times> bool)" where
  "track_categories fromisoformat data [] su = Inr su"
| "track_categories fromisoformat data (cat # cats) su =
     (case track_category fromisoformat data cat su of
        Inl err \<Rightarrow> Inl err
      | Inr su' \<Rightarrow> track_categories fromisoformat data cats su')"

text \<open>Line 92: the predictions strictly after the server time of the last fetch.\<close>

definition upcoming :: "state \<Rightarrow> instant list" where
  "upcoming st = filter (\<lambda>e. e > server_time st) (map snd (expected_ends st))"

text \<open>
  One iteration of \<open>while True\<close> (lines 91 to 131); \<open>g\<close> is what \<open>session.get\<close> does at
  the one fetch of the iteration. \<open>Inl\<close> is an exception leaving \<open>monitor\<close>, \<open>Inr\<close> the
  state at the next loop head.
\<close>

definition iteration ::
  "(string \<Rightarrow> instant option) \<Rightarrow> (string \<Rightarrow> instant option) \<Rightarrow> state \<Rightarrow> get_result
     \<Rightarrow> (error \<times> state) + state" where
  "iteration strptime fromisoformat st g =
     (let now = server_time st in
      if upcoming st = []
      then
        (let st1 = st\<lparr>trace := trace st @ [Fetch]\<rparr> in
         case fetch_stock strptime g of
           Inl e \<Rightarrow> Inl (e, st1)
         | Inr (data, t) \<Rightarrow> Inr (st1\<lparr>server_time := t\<rparr>))
      else
        (let next_end = min_list (upcoming st);
             wait = next_end - now;
             st1 = st\<lparr>trace := trace st @ [Sleep wait, Fetch]\<rparr> in
         case fetch_stock strptime g of
           Inl e \<Rightarrow> Inl (e, st1)
         | Inr (data, t) \<Rightarrow>
             (case track_categories fromisoformat data CATEGORIES (st1\<lparr>server_time := t\<rparr>, False) of
                Inl err \<Rightarrow> Inl err
              | Inr (st2, updated) \<Rightarrow>
                  if \<not> updated
                  then Inr (st2\<lparr>trace := trace st2 @ [Sleep (seconds POLL_AFTER_END)]\<rparr>)
                  else Inr st2)))"

text \<open>
  The loop never returns: it runs for as long as the server answers. A run is
  determined by the list of what the successive calls of \<open>session.get\<close> do; it ends
  \<open>Aborted\<close>, with the exception and everything done until then, or, when the list is
  used up, \<open>Running\<close> at the loop head with the next fetch outstanding.
\<close>

datatype outcome = Aborted error "event list" | Running state

fun monitor_loop ::
  "(string \<Rightarrow> instant option) \<Rightarrow> (string \<Rightarrow> instant option) \<Rightarrow> get_result list \<Rightarrow> state \<Rightarrow> outcome" where
  "monitor_loop strptime fromisoformat [] st = Running st"
| "monitor_loop strptime fromisoformat (g # gs) st =
     (case iteration strptime fromisoformat st g of
        Inl (e, st') \<Rightarrow> Aborted e (trace st')
      | Inr st' \<Rightarrow> monitor_loop strptime fromisoformat gs st')"

text \<open>\<open>monitor\<close>: the initial fetch \<open>g\<close> and pass over the categories, then the loop.\<close>

definition monitor ::
  "(string \<Rightarrow> instant option) \<Rightarrow> (string \<Rightarrow> instant option) \<Rightarrow> get_result \<Rightarrow> get_result list \<Rightarrow> outcome" where
  "monitor strptime fromisoformat g gs =
     (case fetch_stock strptime g of
        Inl e \<Rightarrow> Aborted e [Fetch]
      | Inr (data, t) \<Rightarrow>
          (case initial_categories fromisoformat data CATEGORIES
                  \<lparr>last_start = map (\<lambda>cat. (cat, None)) CATEGORIES, expected_ends = [],
                   server_time = t, trace = [Fetch]\<rparr> of
             Inl (e, st) \<Rightarrow> Aborted e (trace st)
           | Inr st \<Rightarrow> monitor_loop strptime fromisoformat gs st))"


subsection \<open>Notions used in the proofs\<close>

text \<open>The summed quantity of the items of \<open>xs\<close> with identifier \<open>k\<close>.\<close>

definition total :: "item list \<Rightarrow> string \<Rightarrow> int" where
  "total xs k = sum_list (map quantity (filter (\<lambda>x. item_id x = k) xs))"

text \<open>The first item of \<open>xs\<close> with identifier \<open>k\<close>, carrying the summed quantity.\<close>

definition entry :: "item list \<Rightarrow> string \<Rightarrow> item option" where
  "entry xs k = map_option (\<lambda>f. f\<lparr>quantity := total xs k\<rparr>) (find (\<lambda>x. item_id x = k) xs)"

text \<open>The state an iteration ends in, whether it returned or raised.\<close>

definition state_of :: "(error \<times> state) + state \<Rightarrow> state" where
  "state_of r = (case r of Inl (e, st) \<Rightarrow> st | Inr st \<Rightarrow> st)"

definition tracked_state :: "(error \<times> state) + (state \<times> bool) \<Rightarrow> state" where
  "tracked_state r = (case r of Inl (e, st) \<Rightarrow> st | Inr (st, updated) \<Rightarrow> st)"

text \<open>The events of a session report: everything but fetches and sleeps.\<close>

definition is_report :: "event \<Rightarrow> bool" where
  "is_report ev = (case ev of Fetch \<Rightarrow> False | Sleep d \<Rightarrow> False | _ \<Rightarrow> True)"

subsection \<open>Example inputs\<close>

definition ex_items :: "item list" where
  "ex_items =
    [\<lparr>item_id = ''carrot'', display_name = ''Carrot'', quantity = 2,
      Date_Start = ''S1'', Date_End = ''2025-07-01T00:05:00Z''\<rparr>,
     \<lparr>item_id = ''beanstalk'', display_name = ''Beanstalk'', quantity = 1,
      Date_Start = ''S1'', Date_End = ''2025-07-01T00:05:00Z''\<rparr>,
     \<lparr>item_id = ''carrot'', display_name = ''Carrot (dup)'', quantity = 5,
      Date_Start = ''S1'', Date_End = ''2025-07-01T00:05:00Z''\<rparr>]"

definition ex_agg :: "item list" where
  "ex_agg =
    [\<lparr>item_id = ''carrot'', display_name = ''Carrot'', quantity = 7,
      Date_Start = ''S1'', Date_End = ''2025-07-01T00:05:00Z''\<rparr>,
     \<lparr>item_id = ''beanstalk'', display_name = ''Beanstalk'', quantity = 1,
      Date_Start = ''S1'', Date_End = ''2025-07-01T00:05:00Z''\<rparr>]"

definition ex_strptime :: "string \<Rightarrow> instant option" where
  "ex_strptime = map_of
     [(''Tue, 01 Jul 2025 00:00:01 GMT'', 1000000),
      (''Tue, 01 Jul 2025 00:01:00 GMT'', 60000000),
      (''Tue, 01 Jul 2025 00:15:00 GMT'', 900000000)]"

definition ex_fromisoformat :: "string \<Rightarrow> instant option" where
  "ex_fromisoformat = map_of
     [(''2025-07-01T00:05:00+00:00'', 300000000),
      (''2025-07-01T00:10:00+00:00'', 600000000),
      (''2025-07-01T00:30:00+00:00'', 1800000000)]"

definition ex_gear :: "item list" where
  "ex_gear =
    [\<lparr>item_id = ''trowel'', display_name = ''Trowel'', quantity = 3,
      Date_Start = ''G1'', Date_End = ''2025-07-01T00:10:00Z''\<rparr>]"

definition ex_gear_bad :: "item list" where
  "ex_gear_bad =
    [\<lparr>item_id = ''trowel'', display_name = ''Trowel'', quantity = 3,
      Date_Start = ''G2'', Date_End = ''soon''\<rparr>]"

definition ex_egg :: "item list" where
  "ex_egg =
    [\<lparr>item_id = ''bug_egg'', display_name = ''Bug Egg'', quantity = 1,
      Date_Start = ''E2'', Date_End = ''2025-07-01T00:30:00Z''\<rparr>]"

definition ex_data :: "string \<rightharpoonup> item list" where
  "ex_data = [''seed_stock'' \<mapsto> ex_items, ''gear_stock'' \<mapsto> ex_gear, ''egg_stock'' \<mapsto> []]"

definition ex_data_bad :: "string \<rightharpoonup> item list" where
  "ex_data_bad = [''seed_stock'' \<mapsto> ex_items, ''gear_stock'' \<mapsto> ex_gear_bad, ''egg_stock'' \<mapsto> ex_egg]"

definition ex_get :: "(string \<rightharpoonup> item list) \<Rightarrow> string \<Rightarrow> get_result" where
  "ex_get data date = Get_returns \<lparr>status = 200, json = Some data, header_Date = Some date\<rparr>"

definition ex_state :: state where
  "ex_state =
     \<lparr>last_start = [(''seed_stock'', Some ''S0''), (''gear_stock'', Some ''G1''), (''egg_stock'', Some ''E1'')],
      expected_ends = [(''seed_stock'', 60000000), (''gear_stock'', 600000000), (''egg_stock'', 900000000)],
      server_time = 0, trace = []\<rparr>"

definition ex_near :: state where
  "ex_near =
     \<lparr>last_start = [(''seed_stock'', Some ''S1''), (''gear_stock'', Some ''G1''), (''egg_stock'', Some ''E1'')],
      expected_ends = [(''seed_stock'', 1000000), (''gear_stock'', 600000000), (''egg_stock'', 900000000)],
      server_time = 0, trace = []\<rparr>"

definition ex_lapsed :: state where
  "ex_lapsed = ex_state\<lparr>server_time := 900000000\<rparr>"

definition ex_after :: state where
  "ex_after =
     \<lparr>last_start = [(''seed_stock'', Some ''S1''), (''gear_stock'', Some ''G1''), (''egg_stock'', Some ''E1'')],
      expected_ends = [(''seed_stock'', 300000000), (''gear_stock'', 600000000), (''egg_stock'', 900000000)],
      server_time = 60000000,
      trace = [Sleep 60000000, Fetch, Listing ''seed_stock'' ''S1'' ex_agg, Alert ''seed_stock'' [ex_agg ! 1]]\<rparr>"

definition ex_failed :: state where
  "ex_failed = ex_after\<lparr>last_start :=
      [(''seed_stock'', Some ''S1''), (''gear_stock'', Some ''G2''), (''egg_stock'', Some ''E1'')]\<rparr>"

definition ex_date :: string where
  "ex_date = ''Tue, 01 Jul 2025 00:01:00 GMT''"

definition ex_date_soon :: string where
  "ex_date_soon = ''Tue, 01 Jul 2025 00:00:01 GMT''"

definition ex_date_late :: string where
  "ex_date_late = ''Tue, 01 Jul 2025 00:15:00 GMT''"

definition ex_unavailable :: get_result where
  "ex_unavailable = Get_returns \<lparr>status = 503, json = None, header_Date = None\<rparr>"

definition ex_initial :: state where
  "ex_initial =
     \<lparr>last_start = [(''seed_stock'', Some ''S1''), (''gear_stock'', None), (''egg_stock'', None)],
      expected_ends = [(''seed_stock'', 300000000)],
      server_time = 60000000,
      trace = [Fetch, Listing ''seed_stock'' ''S1'' ex_agg, Alert ''seed_stock'' [ex_agg ! 1]]\<rparr>"

section \<open>Aggregation\<close>

lemma aggregate_loop_snoc:
  "aggregate_loop acc (xs @ [x]) = aggregate_step (aggregate_loop acc xs) x"
  by (induction xs arbitrary: acc) simp_all

lemma map_fst_map_entry: "map fst (AList.map_entry k f ps) = map fst ps"
  by (induction ps) auto

lemma find_snoc:
  "find P (xs @ [x]) =
     (case find P xs of None \<Rightarrow> (if P x then Some x else None) | Some y \<Rightarrow> Some y)"
  by (induction xs) auto

lemma find_None_filter: "find P xs = None \<Longrightarrow> filter P xs = []"
  by (induction xs) (auto split: if_splits)

lemma entry_snoc:
  "entry (xs @ [x]) k =
     (if item_id x = k
      then (case entry xs k of
              None \<Rightarrow> Some x
            | Some a \<Rightarrow> Some (a\<lparr>quantity := quantity a + quantity x\<rparr>))
      else entry xs k)"
  by (auto simp: entry_def total_def find_snoc find_None_filter split: option.splits)

text \<open>
  The loop invariant, by induction on the items consumed so far: the keys of \<open>acc\<close> are
  the identifiers seen, in the order of their first occurrence, and each key holds the
  first item with that identifier, with the quantities summed.
\<close>

lemma aggregate_loop_inv:
  "map fst (aggregate_loop [] xs) = rev (remdups (rev (map item_id xs))) \<and>
   map_of (aggregate_loop [] xs) = entry xs"
proof (induction xs rule: rev_induct)
  case Nil
  show ?case by (simp add: entry_def fun_eq_iff)
next
  case (snoc x xs)
  let ?R = "aggregate_loop [] xs"
  from snoc have keys: "map fst ?R = rev (remdups (rev (map item_id xs)))"
    and vals: "map_of ?R = entry xs" by simp_all
  have mem: "map_of ?R (item_id x) = None \<longleftrightarrow> item_id x \<notin> set (map item_id xs)"
    using keys by (metis map_of_eq_None_iff set_map set_remdups set_rev)
  show ?case
  proof (cases "map_of ?R (item_id x) = None")
    case True
    then have "map_of (?R @ [(item_id x, x)]) = entry (xs @ [x])"
      using vals by (auto simp: fun_eq_iff entry_snoc map_add_def split: option.splits)
    with True mem keys show ?thesis
      by (simp add: aggregate_loop_snoc aggregate_step_def Let_def)
  next
    case False
    then have "map_of (AList.map_entry (item_id x) (\<lambda>a. a\<lparr>quantity := quantity a + quantity x\<rparr>) ?R)
                 = entry (xs @ [x])"
      using vals by (auto simp: fun_eq_iff entry_snoc AList.map_of_map_entry split: option.splits)
    with False mem keys show ?thesis
      by (simp add: aggregate_loop_snoc aggregate_step_def Let_def map_fst_map_entry)
  qed
qed

lemma entry_SomeD:
  "entry xs k = Some a \<Longrightarrow>
     item_id a = k \<and> (\<exists>f. find (\<lambda>x. item_id x = k) xs = Some f \<and>
        a = f\<lparr>quantity := sum_list (map quantity (filter (\<lambda>x. item_id x = k) xs))\<rparr>)"
  by (auto simp: entry_def total_def find_Some_iff)

lemma aggregate_loop_entry:
  assumes "p \<in> set (aggregate_loop [] xs)"
  shows "entry xs (fst p) = Some (snd p)"
proof -
  have "distinct (map fst (aggregate_loop [] xs))"
    using aggregate_loop_inv [of xs] by simp
  with assms have "map_of (aggregate_loop [] xs) (fst p) = Some (snd p)" by simp
  then show ?thesis using aggregate_loop_inv [of xs] by simp
qed

lemma aggregate_ids:
  "map item_id (aggregate_by_item_id xs) = rev (remdups (rev (map item_id xs)))"
proof -
  let ?R = "aggregate_loop [] xs"
  have "\<forall>p \<in> set ?R. item_id (snd p) = fst p"
    using aggregate_loop_entry entry_SomeD by blast
  then have "map (item_id \<circ> snd) ?R = map fst ?R" by (intro map_cong) auto
  then show ?thesis using aggregate_loop_inv [of xs] by (simp add: aggregate_by_item_id_def)
qed

lemma aggregate_entries:
  assumes "a \<in> set (aggregate_by_item_id xs)"
  shows "\<exists>f. find (\<lambda>x. item_id x = item_id a) xs = Some f \<and>
        a = f\<lparr>quantity := sum_list (map quantity (filter (\<lambda>x. item_id x = item_id a) xs))\<rparr>"
proof -
  from assms obtain k where "(k, a) \<in> set (aggregate_loop [] xs)"
    by (auto simp: aggregate_by_item_id_def)
  then have "entry xs k = Some a" using aggregate_loop_entry by fastforce
  then show ?thesis using entry_SomeD by blast
qed

text \<open>On a list without repeated identifiers the loop only appends.\<close>

lemma aggregate_loop_distinct:
  "distinct (map fst acc @ map item_id ys) \<Longrightarrow>
     aggregate_loop acc ys = acc @ map (\<lambda>y. (item_id y, y)) ys"
proof (induction ys arbitrary: acc)
  case Nil
  show ?case by simp
next
  case (Cons y ys)
  from Cons.prems have "map_of acc (item_id y) = None"
    by (simp add: map_of_eq_None_iff)
  then have step: "aggregate_step acc y = acc @ [(item_id y, y)]"
    by (simp add: aggregate_step_def)
  from Cons.prems have "distinct (map fst (acc @ [(item_id y, y)]) @ map item_id ys)"
    by auto
  then show ?case using Cons.IH [of "acc @ [(item_id y, y)]"] step by simp
qed

lemma aggregate_distinct_id:
  assumes "distinct (map item_id ys)"
  shows "aggregate_by_item_id ys = ys"
  using aggregate_loop_distinct [of "[]" ys] assms
  by (simp add: aggregate_by_item_id_def comp_def)

text \<open>
  C9. For a list of raw items, \<open>aggregate_by_item_id\<close> returns one entry per distinct
  item identifier, in the order in which the identifiers first occur (so there are as
  many entries as distinct identifiers); each entry is the first raw item with its
  identifier, with the quantity replaced by the sum of the quantities of all raw items
  with that identifier; the empty list gives the empty list; and aggregating an
  aggregated list gives the same list.
\<close>

theorem aggregate_by_item_id_correct:
  "map item_id (aggregate_by_item_id items) = rev (remdups (rev (map item_id items))) \<and>
   length (aggregate_by_item_id items) = card (item_id ` set items) \<and>
   (\<forall>a \<in> set (aggregate_by_item_id items).
      \<exists>f. find (\<lambda>x. item_id x = item_id a) items = Some f \<and>
          a = f\<lparr>quantity := sum_list (map quantity (filter (\<lambda>x. item_id x = item_id a) items))\<rparr>) \<and>
   aggregate_by_item_id [] = [] \<and>
   aggregate_by_item_id (aggregate_by_item_id items) = aggregate_by_item_id items"
proof -
  have ids: "map item_id (aggregate_by_item_id items) = rev (remdups (rev (map item_id items)))"
    by (rule aggregate_ids)
  have "length (map item_id (aggregate_by_item_id items)) = card (set (rev (map item_id items)))"
    unfolding ids by (simp only: length_rev length_remdups_card_conv)
  then have len: "length (aggregate_by_item_id items) = card (item_id ` set items)" by simp
  have "distinct (map item_id (aggregate_by_item_id items))" unfolding ids by simp
  then have idem: "aggregate_by_item_id (aggregate_by_item_id items) = aggregate_by_item_id items"
    by (rule aggregate_distinct_id)
  have nil: "aggregate_by_item_id [] = []" by (simp add: aggregate_by_item_id_def)
  from ids len idem nil aggregate_entries show ?thesis by blast
qed

lemma aggregate_ex_items: "aggregate_by_item_id ex_items = ex_agg"
  by (simp add: aggregate_by_item_id_def aggregate_step_def Let_def ex_items_def ex_agg_def)

text \<open>
  Three raw items with two identifiers: the two carrots merge into the first one, with
  quantity 7, before the beanstalk.
\<close>

theorem aggregate_by_item_id_witness:
  "aggregate_by_item_id ex_items = ex_agg \<and>
   map item_id ex_agg = [''carrot'', ''beanstalk''] \<and>
   length ex_agg = card (item_id ` set ex_items) \<and>
   ex_agg ! 0 \<in> set (aggregate_by_item_id ex_items) \<and>
   (\<exists>f. find (\<lambda>x. item_id x = ''carrot'') ex_items = Some f \<and> display_name f = ''Carrot'' \<and>
        ex_agg ! 0 = f\<lparr>quantity := 7\<rparr>) \<and>
   aggregate_by_item_id ex_agg = ex_agg"
proof -
  note agg = aggregate_by_item_id_correct [of ex_items, unfolded aggregate_ex_items]
  have mem: "ex_agg ! 0 \<in> set ex_agg" by (simp add: ex_agg_def)
  from agg mem have "\<exists>f. find (\<lambda>x. item_id x = item_id (ex_agg ! 0)) ex_items = Some f \<and>
      ex_agg ! 0 = f\<lparr>quantity := sum_list (map quantity (filter (\<lambda>x. item_id x = item_id (ex_agg ! 0)) ex_items))\<rparr>"
    by blast
  then have "\<exists>f. find (\<lambda>x. item_id x = ''carrot'') ex_items = Some f \<and> display_name f = ''Carrot'' \<and>
        ex_agg ! 0 = f\<lparr>quantity := 7\<rparr>"
    by (simp add: ex_agg_def ex_items_def)
  moreover from agg have "map item_id ex_agg = [''carrot'', ''beanstalk'']"
    by (simp add: ex_items_def)
  ultimately show ?thesis using agg mem by (simp add: aggregate_ex_items)
qed

section \<open>The watchlist filter\<close>

lemma found_filter:
  "found agg = filter (\<lambda>it. display_name it \<in> TARGET \<and> quantity it > 0) agg"
  by (induction agg) simp_all

text \<open>
  C10. For a list of aggregated items, \<open>found\<close> is the comprehension's result: the items
  whose display name is in \<open>TARGET\<close> and whose quantity is positive, in the order of the
  input. So it is a subsequence of the input, its items are items of the input, every
  one of them satisfies both conditions, and filtering twice is filtering once.
\<close>

theorem found_correct:
  "found agg = filter (\<lambda>it. display_name it \<in> TARGET \<and> quantity it > 0) agg \<and>
   subseq (found agg) agg \<and>
   set (found agg) \<subseteq> set agg \<and>
   (\<forall>it \<in> set (found agg). display_name it \<in> TARGET \<and> quantity it > 0) \<and>
   found (found agg) = found agg"
  by (simp add: found_filter)

lemma found_ex_agg: "found ex_agg = [ex_agg ! 1]"
  by (simp add: ex_agg_def TARGET_def)

text \<open>Of the two aggregated items only the beanstalk is on the watchlist.\<close>

theorem found_witness:
  "found ex_agg = [ex_agg ! 1] \<and> ex_agg ! 1 \<in> set (found ex_agg) \<and>
   display_name (ex_agg ! 1) = ''Beanstalk'' \<and> ''Beanstalk'' \<in> TARGET \<and>
   quantity (ex_agg ! 1) = 1 \<and> subseq [ex_agg ! 1] ex_agg \<and> found [ex_agg ! 1] = [ex_agg ! 1]"
  using found_correct [of ex_agg] by (simp add: found_ex_agg) (simp add: ex_agg_def)

section \<open>The session tracker and the scheduler\<close>

subsection \<open>One category of one snapshot\<close>

text \<open>
  C1. When the tracker (the body of the loop over the categories, inside \<open>while True\<close>)
  meets a non-empty item list whose first record's \<open>Date_Start\<close> differs from the stored
  marker (a stored \<open>None\<close> differs from every marker) and whose first record's \<open>Date_End\<close>
  parses, it reports a rotation (\<open>updated\<close> becomes \<open>True\<close>), stores the new marker, stores
  as predicted end the instant parsed from the first record's \<open>Date_End\<close>, leaves the
  entries of the other categories and the server time alone, lists the aggregated
  items, and calls \<open>send_email_alert\<close> with the filtered items exactly when there are any.
\<close>

theorem track_category_rotation:
  assumes items: "data_get data cat = it0 # rest"
    and differs: "Some (Date_Start it0) \<noteq> last_start_get (last_start st) cat"
    and parses: "parse_end fromisoformat (Date_End it0) = Some e"
  shows "\<exists>st'. track_category fromisoformat data cat (st, updated) = Inr (st', True) \<and>
           last_start_get (last_start st') cat = Some (Date_Start it0) \<and>
           map_of (expected_ends st') cat = Some e \<and>
           (\<forall>c. c \<noteq> cat \<longrightarrow> last_start_get (last_start st') c = last_start_get (last_start st) c \<and>
                             map_of (expected_ends st') c = map_of (expected_ends st) c) \<and>
           server_time st' = server_time st \<and>
           trace st' = trace st @
              Listing cat (Date_Start it0) (aggregate_by_item_id (it0 # rest)) #
              (if found (aggregate_by_item_id (it0 # rest)) \<noteq> []
               then [Alert cat (found (aggregate_by_item_id (it0 # rest)))]
               else [NoTarget cat])"
  using assms
  by (simp add: track_category_def Let_def report_new_def last_start_get_def AList.update_conv')

text \<open>
  C2. When the first record's \<open>Date_Start\<close> of a non-empty item list equals the stored
  marker, the tracker returns the state as it was (markers, predicted ends, server
  time, and no new event: no listing of aggregated items, no alert) and leaves the
  flag \<open>updated\<close> as it was.
\<close>

theorem track_category_same_marker:
  assumes items: "data_get data cat = it0 # rest"
    and same: "Some (Date_Start it0) = last_start_get (last_start st) cat"
  shows "track_category fromisoformat data cat (st, updated) = Inr (st, updated)"
  using assms by (simp add: track_category_def Let_def)

lemma track_category_empty:
  "data_get data cat = [] \<Longrightarrow> track_category fromisoformat data cat su = Inr su"
  by (simp add: track_category_def split: prod.splits)

lemma track_category_trace:
  "track_category fromisoformat data cat (st, u) = r \<Longrightarrow>
     \<exists>evs. trace (case r of Inl (e, s) \<Rightarrow> s | Inr (s, u') \<Rightarrow> s) = trace st @ evs \<and>
           list_all is_report evs"
  by (auto simp: track_category_def Let_def report_new_def is_report_def
           split: list.splits option.splits if_splits)

lemma track_categories_trace:
  "\<exists>evs. trace (case track_categories fromisoformat data cats (st, u) of
                    Inl (e, s) \<Rightarrow> s | Inr (s, u') \<Rightarrow> s) = trace st @ evs \<and>
         list_all is_report evs"
proof (induction cats arbitrary: st u)
  case Nil
  show ?case by simp
next
  case (Cons c cats)
  show ?case
  proof (cases "track_category fromisoformat data c (st, u)")
    case (Inl err)
    then show ?thesis using track_category_trace [OF Inl] by (cases err) auto
  next
    case (Inr su)
    obtain s1 u1 where su: "su = (s1, u1)" by (cases su)
    from track_category_trace [OF Inr] su obtain evs where
      1: "trace s1 = trace st @ evs" "list_all is_report evs" by auto
    from Cons.IH [of s1 u1] obtain evs' where
      2: "trace (case track_categories fromisoformat data cats (s1, u1) of
                   Inl (e, s) \<Rightarrow> s | Inr (s, u') \<Rightarrow> s) = trace s1 @ evs'"
         "list_all is_report evs'" by blast
    from 1 2 have "trace (case track_categories fromisoformat data cats (s1, u1) of
                   Inl (e, s) \<Rightarrow> s | Inr (s, u') \<Rightarrow> s) = trace st @ (evs @ evs') \<and>
                   list_all is_report (evs @ evs')" by simp
    then show ?thesis using Inr su by auto
  qed
qed

text \<open>A pass that ends with \<open>updated\<close> false has changed nothing.\<close>

lemma track_category_flag:
  "track_category fromisoformat data cat (st, u) = Inr (st', u') \<Longrightarrow>
     (u \<longrightarrow> u') \<and> (\<not> u' \<longrightarrow> st' = st)"
  by (auto simp: track_category_def Let_def split: list.splits option.splits if_splits)

lemma track_categories_flag:
  "track_categories fromisoformat data cats (st, u) = Inr (st', u') \<Longrightarrow>
     (u \<longrightarrow> u') \<and> (\<not> u' \<longrightarrow> st' = st)"
proof (induction cats arbitrary: st u)
  case Nil
  then show ?case by simp
next
  case (Cons c cats)
  from Cons.prems obtain s1 u1 where
    1: "track_category fromisoformat data c (st, u) = Inr (s1, u1)" and
    2: "track_categories fromisoformat data cats (s1, u1) = Inr (st', u')"
    by (auto split: sum.splits)
  from track_category_flag [OF 1] Cons.IH [OF 2] show ?case by blast
qed

lemma upcoming_set:
  "set (upcoming st) = {e \<in> snd ` set (expected_ends st). server_time st < e}"
  by (auto simp: upcoming_def)

lemma upcoming_positive:
  "upcoming st \<noteq> [] \<Longrightarrow> 0 < min_list (upcoming st) - server_time st"
proof -
  assume ne: "upcoming st \<noteq> []"
  then have "Min (set (upcoming st)) \<in> set (upcoming st)" by (intro Min_in) auto
  then show ?thesis using ne by (simp add: min_list_Min upcoming_set)
qed


lemma iteration_lapsed:
  "upcoming st = [] \<Longrightarrow>
     iteration strptime fromisoformat st g =
       (case fetch_stock strptime g of
          Inl e \<Rightarrow> Inl (e, st\<lparr>trace := trace st @ [Fetch]\<rparr>)
        | Inr (data, t) \<Rightarrow> Inr (st\<lparr>server_time := t, trace := trace st @ [Fetch]\<rparr>))"
  by (simp add: iteration_def Let_def split: sum.splits prod.splits)

lemma iteration_fetch_fails:
  "fetch_stock strptime g = Inl e \<Longrightarrow>
     iteration strptime fromisoformat st g =
       Inl (e, st\<lparr>trace := trace st @
                 (if upcoming st = [] then [Fetch]
                  else [Sleep (min_list (upcoming st) - server_time st), Fetch])\<rparr>)"
  by (simp add: iteration_def Let_def)

lemma iteration_tracks:
  "upcoming st \<noteq> [] \<Longrightarrow> fetch_stock strptime g = Inr (data, t) \<Longrightarrow>
     iteration strptime fromisoformat st g =
       (case track_categories fromisoformat data CATEGORIES
               (st\<lparr>trace := trace st @ [Sleep (min_list (upcoming st) - server_time st), Fetch],
                    server_time := t\<rparr>, False) of
          Inl err \<Rightarrow> Inl err
        | Inr (st2, updated) \<Rightarrow>
            if \<not> updated
            then Inr (st2\<lparr>trace := trace st2 @ [Sleep (seconds POLL_AFTER_END)]\<rparr>)
            else Inr st2)"
  by (simp add: iteration_def Let_def)

lemma iteration_trace_upcoming:
  assumes ne: "upcoming st \<noteq> []"
  shows "\<exists>evs. trace (state_of (iteration strptime fromisoformat st g)) =
          trace st @ Sleep (min_list (upcoming st) - server_time st) # Fetch # evs \<and>
          Fetch \<notin> set evs"
proof (cases "fetch_stock strptime g")
  case (Inl e)
  then show ?thesis using ne by (simp add: iteration_fetch_fails state_of_def)
next
  case (Inr dt)
  obtain data t where dt: "dt = (data, t)" by (cases dt)
  let ?st1 = "st\<lparr>trace := trace st @ [Sleep (min_list (upcoming st) - server_time st), Fetch],
                  server_time := t\<rparr>"
  let ?r = "track_categories fromisoformat data CATEGORIES (?st1, False)"
  from track_categories_trace [of fromisoformat data CATEGORIES ?st1 False]
  obtain evs where evs: "trace (case ?r of Inl (e, s) \<Rightarrow> s | Inr (s, u') \<Rightarrow> s) = trace ?st1 @ evs"
    "list_all is_report evs" by blast
  from evs(2) have nf: "Fetch \<notin> set evs" by (auto simp: list_all_iff is_report_def)
  show ?thesis
  proof (cases ?r)
    case (Inl err)
    then show ?thesis using evs(1) nf Inr dt ne
      by (cases err) (simp add: iteration_tracks state_of_def)
  next
    case (Inr su)
    then show ?thesis using evs(1) nf \<open>fetch_stock strptime g = Inr dt\<close> dt ne
      by (cases su) (auto simp: iteration_tracks state_of_def)
  qed
qed

text \<open>
  C3. At the head of every iteration the upcoming list holds exactly the stored
  predicted ends that are strictly after the server time. When it is not empty, the
  iteration sleeps for its minimum minus the server time and then fetches (its one
  fetch); when it is empty, the iteration fetches at once, with no sleep, and does
  nothing else.
\<close>

theorem scheduling_decision:
  "set (upcoming st) = {e \<in> snd ` set (expected_ends st). server_time st < e} \<and>
   (upcoming st \<noteq> [] \<longrightarrow>
      (\<exists>evs. trace (state_of (iteration strptime fromisoformat st g)) =
          trace st @ Sleep (Min (set (upcoming st)) - server_time st) # Fetch # evs \<and>
          Fetch \<notin> set evs)) \<and>
   (upcoming st = [] \<longrightarrow>
      trace (state_of (iteration strptime fromisoformat st g)) = trace st @ [Fetch])"
proof -
  have "upcoming st = [] \<Longrightarrow>
      trace (state_of (iteration strptime fromisoformat st g)) = trace st @ [Fetch]"
    by (simp add: iteration_lapsed state_of_def split: sum.splits prod.splits)
  moreover have "upcoming st \<noteq> [] \<Longrightarrow>
      (\<exists>evs. trace (state_of (iteration strptime fromisoformat st g)) =
          trace st @ Sleep (Min (set (upcoming st)) - server_time st) # Fetch # evs \<and>
          Fetch \<notin> set evs)"
    using iteration_trace_upcoming [of st strptime fromisoformat g] by (simp add: min_list_Min)
  ultimately show ?thesis using upcoming_set by blast
qed

text \<open>
  C4, amended. An iteration that waits for a deadline, fetches, and finds that no
  category rotated sleeps the fixed \<open>POLL_AFTER_END\<close> (5 seconds) after the fetch; the wait
  before the fetch, the minimum upcoming end minus the server time, is positive. An
  iteration whose upcoming list is empty fetches with no wait at all.
\<close>

theorem waits_of_an_iteration:
  "(upcoming st \<noteq> [] \<longrightarrow> fetch_stock strptime g = Inr (data, t) \<longrightarrow>
      track_categories fromisoformat data CATEGORIES
        (st\<lparr>trace := trace st @ [Sleep (min_list (upcoming st) - server_time st), Fetch],
             server_time := t\<rparr>, False)
        = Inr (st2, False) \<longrightarrow>
      iteration strptime fromisoformat st g =
        Inr (st\<lparr>server_time := t,
                 trace := trace st @ [Sleep (min_list (upcoming st) - server_time st), Fetch,
                                      Sleep (seconds POLL_AFTER_END)]\<rparr>) \<and>
      0 < min_list (upcoming st) - server_time st) \<and>
   seconds POLL_AFTER_END = 5000000 \<and>
   (upcoming st = [] \<longrightarrow>
      trace (state_of (iteration strptime fromisoformat st g)) = trace st @ [Fetch])"
proof -
  have "iteration strptime fromisoformat st g =
        Inr (st\<lparr>server_time := t,
                 trace := trace st @ [Sleep (min_list (upcoming st) - server_time st), Fetch,
                                      Sleep (seconds POLL_AFTER_END)]\<rparr>)"
    if ne: "upcoming st \<noteq> []" and f: "fetch_stock strptime g = Inr (data, t)"
      and tr: "track_categories fromisoformat data CATEGORIES
        (st\<lparr>trace := trace st @ [Sleep (min_list (upcoming st) - server_time st), Fetch],
             server_time := t\<rparr>, False)
        = Inr (st2, False)"
  proof -
    from track_categories_flag [OF tr] have "st2 = st\<lparr>trace := trace st @ [Sleep (min_list (upcoming st) - server_time st), Fetch],
             server_time := t\<rparr>" by simp
    then show ?thesis using ne f tr by (simp add: iteration_tracks)
  qed
  moreover have "upcoming st = [] \<Longrightarrow>
      trace (state_of (iteration strptime fromisoformat st g)) = trace st @ [Fetch]"
    by (simp add: iteration_lapsed state_of_def split: sum.splits prod.splits)
  moreover have "seconds POLL_AFTER_END = 5000000" by (simp add: seconds_def POLL_AFTER_END_def)
  ultimately show ?thesis using upcoming_positive by blast
qed


subsection \<open>Predictions are never cleared\<close>

lemma track_category_keeps:
  assumes "c \<noteq> cat \<or> data_get data c = []"
  shows "map_of (expected_ends (tracked_state (track_category fromisoformat data cat (st, u)))) c
           = map_of (expected_ends st) c \<and>
         last_start_get (last_start (tracked_state (track_category fromisoformat data cat (st, u)))) c
           = last_start_get (last_start st) c"
  using assms
  by (auto simp: track_category_def tracked_state_def Let_def last_start_get_def AList.update_conv'
           split: list.splits option.splits)

lemma track_category_frame:
  "server_time (tracked_state (track_category fromisoformat data cat (st, u))) = server_time st \<and>
   dom (map_of (expected_ends st))
     \<subseteq> dom (map_of (expected_ends (tracked_state (track_category fromisoformat data cat (st, u)))))"
  by (auto simp: track_category_def tracked_state_def Let_def AList.update_conv'
           split: list.splits option.splits)

lemma track_categories_Cons_state:
  "tracked_state (track_categories fromisoformat data (c # cats) (st, u)) =
     (case track_category fromisoformat data c (st, u) of
        Inl (e, s) \<Rightarrow> s
      | Inr (s, u') \<Rightarrow> tracked_state (track_categories fromisoformat data cats (s, u')))"
  by (simp add: tracked_state_def split: sum.splits prod.splits)

lemma track_categories_keeps:
  assumes "c \<notin> set cats \<or> data_get data c = []"
  shows "map_of (expected_ends (tracked_state (track_categories fromisoformat data cats (st, u)))) c
           = map_of (expected_ends st) c \<and>
         last_start_get (last_start (tracked_state (track_categories fromisoformat data cats (st, u)))) c
           = last_start_get (last_start st) c"
  using assms
proof (induction cats arbitrary: st u)
  case Nil
  show ?case by (simp add: tracked_state_def)
next
  case (Cons a cats)
  from Cons.prems have a: "c \<noteq> a \<or> data_get data c = []"
    and rest: "c \<notin> set cats \<or> data_get data c = []" by auto
  show ?case
  proof (cases "track_category fromisoformat data a (st, u)")
    case (Inl err)
    then show ?thesis using track_category_keeps [OF a, of fromisoformat st u]
      by (cases err) (simp add: track_categories_Cons_state tracked_state_def)
  next
    case (Inr su)
    obtain s1 u1 where su: "su = (s1, u1)" by (cases su)
    from track_category_keeps [OF a, of fromisoformat st u] Inr su
    have "map_of (expected_ends s1) c = map_of (expected_ends st) c \<and>
          last_start_get (last_start s1) c = last_start_get (last_start st) c"
      by (simp add: tracked_state_def)
    then show ?thesis using Cons.IH [OF rest, of s1 u1] Inr su
      by (simp add: track_categories_Cons_state)
  qed
qed

lemma track_categories_frame:
  "server_time (tracked_state (track_categories fromisoformat data cats (st, u))) = server_time st \<and>
   dom (map_of (expected_ends st))
     \<subseteq> dom (map_of (expected_ends (tracked_state (track_categories fromisoformat data cats (st, u)))))"
proof (induction cats arbitrary: st u)
  case Nil
  show ?case by (simp add: tracked_state_def)
next
  case (Cons a cats)
  show ?case
  proof (cases "track_category fromisoformat data a (st, u)")
    case (Inl err)
    then show ?thesis using track_category_frame [of fromisoformat data a st u]
      by (cases err) (simp add: track_categories_Cons_state tracked_state_def)
  next
    case (Inr su)
    obtain s1 u1 where su: "su = (s1, u1)" by (cases su)
    from track_category_frame [of fromisoformat data a st u] Inr su
    have "server_time s1 = server_time st"
      "dom (map_of (expected_ends st)) \<subseteq> dom (map_of (expected_ends s1))"
      by (simp_all add: tracked_state_def)
    then show ?thesis using Cons.IH [of s1 u1] Inr su
      by (simp add: track_categories_Cons_state) blast
  qed
qed

lemma iteration_state:
  "state_of (iteration strptime fromisoformat st g) =
     (case fetch_stock strptime g of
        Inl e \<Rightarrow> st\<lparr>trace := trace st @
                 (if upcoming st = [] then [Fetch]
                  else [Sleep (min_list (upcoming st) - server_time st), Fetch])\<rparr>
      | Inr (data, t) \<Rightarrow>
          if upcoming st = [] then st\<lparr>server_time := t, trace := trace st @ [Fetch]\<rparr>
          else (let s2 = tracked_state (track_categories fromisoformat data CATEGORIES
                  (st\<lparr>trace := trace st @ [Sleep (min_list (upcoming st) - server_time st), Fetch],
                       server_time := t\<rparr>, False))
                in if track_categories fromisoformat data CATEGORIES
                  (st\<lparr>trace := trace st @ [Sleep (min_list (upcoming st) - server_time st), Fetch],
                       server_time := t\<rparr>, False) = Inr (s2, False)
                   then s2\<lparr>trace := trace s2 @ [Sleep (seconds POLL_AFTER_END)]\<rparr> else s2))"
  by (auto simp: iteration_fetch_fails iteration_lapsed iteration_tracks state_of_def tracked_state_def
           split: sum.splits prod.splits)

lemma iteration_keeps:
  assumes "fetch_stock strptime g = Inr (data, t)" "data_get data cat = []"
  shows "map_of (expected_ends (state_of (iteration strptime fromisoformat st g))) cat
           = map_of (expected_ends st) cat \<and>
         last_start_get (last_start (state_of (iteration strptime fromisoformat st g))) cat
           = last_start_get (last_start st) cat"
  using assms track_categories_keeps [of cat CATEGORIES data fromisoformat
      "st\<lparr>trace := trace st @ [Sleep (min_list (upcoming st) - server_time st), Fetch],
          server_time := t\<rparr>" False]
  by (simp add: iteration_state Let_def)

lemma iteration_dom:
  "dom (map_of (expected_ends st))
     \<subseteq> dom (map_of (expected_ends (state_of (iteration strptime fromisoformat st g))))"
proof (cases "fetch_stock strptime g")
  case (Inl e)
  then show ?thesis by (simp add: iteration_state)
next
  case (Inr dt)
  obtain data t where dt: "dt = (data, t)" by (cases dt)
  show ?thesis
    using Inr dt track_categories_frame [of fromisoformat data CATEGORIES
      "st\<lparr>trace := trace st @ [Sleep (min_list (upcoming st) - server_time st), Fetch],
          server_time := t\<rparr>" False]
    by (simp add: iteration_state Let_def)
qed

lemma iteration_server_time:
  "iteration strptime fromisoformat st g = Inr st' \<Longrightarrow>
     \<exists>data. fetch_stock strptime g = Inr (data, server_time st')"
proof (cases "fetch_stock strptime g")
  case (Inl e)
  assume "iteration strptime fromisoformat st g = Inr st'"
  with Inl show ?thesis by (simp add: iteration_fetch_fails)
next
  case (Inr dt)
  assume it: "iteration strptime fromisoformat st g = Inr st'"
  obtain data t where dt: "dt = (data, t)" by (cases dt)
  from it have "state_of (iteration strptime fromisoformat st g) = st'" by (simp add: state_of_def)
  then have "server_time st' = t"
    using Inr dt track_categories_frame [of fromisoformat data CATEGORIES
      "st\<lparr>trace := trace st @ [Sleep (min_list (upcoming st) - server_time st), Fetch],
          server_time := t\<rparr>" False]
    by (auto simp: iteration_state Let_def split: if_splits)
  then show ?thesis using Inr dt by simp
qed

text \<open>
  C5, amended. The tracker skips a category whose item list is empty: state and flag
  stay as they are. Over a whole iteration whose fetch succeeded, the category's
  predicted end and marker are what they were (the prediction is not cleared), and a
  predicted end still after the new server time is in the upcoming list of the next
  scheduling decision. No iteration removes a category from \<open>expected_ends\<close>.
\<close>

theorem empty_list_keeps_prediction:
  "(data_get data cat = [] \<longrightarrow>
      track_category fromisoformat data cat (st, updated) = Inr (st, updated)) \<and>
   (fetch_stock strptime g = Inr (data, t) \<longrightarrow> data_get data cat = [] \<longrightarrow>
      map_of (expected_ends (state_of (iteration strptime fromisoformat st g))) cat
        = map_of (expected_ends st) cat \<and>
      last_start_get (last_start (state_of (iteration strptime fromisoformat st g))) cat
        = last_start_get (last_start st) cat \<and>
      (\<forall>st' e. iteration strptime fromisoformat st g = Inr st' \<longrightarrow>
          map_of (expected_ends st) cat = Some e \<longrightarrow> t < e \<longrightarrow> e \<in> set (upcoming st'))) \<and>
   dom (map_of (expected_ends st))
     \<subseteq> dom (map_of (expected_ends (state_of (iteration strptime fromisoformat st g))))"
proof -
  have "e \<in> set (upcoming st')"
    if f: "fetch_stock strptime g = Inr (data, t)" and emp: "data_get data cat = []"
      and it: "iteration strptime fromisoformat st g = Inr st'"
      and e: "map_of (expected_ends st) cat = Some e" and lt: "t < e" for st' e
  proof -
    from it have s: "state_of (iteration strptime fromisoformat st g) = st'"
      by (simp add: state_of_def)
    from iteration_keeps [OF f emp, of fromisoformat st] s e
    have "map_of (expected_ends st') cat = Some e" by simp
    then have "(cat, e) \<in> set (expected_ends st')" by (rule map_of_SomeD)
    then have "e \<in> snd ` set (expected_ends st')" by force
    moreover from iteration_server_time [OF it] f have "server_time st' = t" by simp
    ultimately show ?thesis using lt by (simp add: upcoming_set)
  qed
  then show ?thesis
    using track_category_empty iteration_keeps iteration_dom by blast
qed

subsection \<open>The re-fetch of the empty-upcoming path\<close>

lemma monitor_loop_lapsed:
  assumes "\<forall>e \<in> set (map snd (expected_ends st)). e \<le> T" "T \<le> server_time st"
    "\<forall>g \<in> set gs. \<forall>data t. fetch_stock strptime g = Inr (data, t) \<longrightarrow> T \<le> t"
  shows "case monitor_loop strptime fromisoformat gs st of
           Running st' \<Rightarrow> last_start st' = last_start st \<and> expected_ends st' = expected_ends st \<and>
                          upcoming st' = [] \<and> trace st' = trace st @ replicate (length gs) Fetch
         | Aborted e tr \<Rightarrow> \<exists>n\<le>length gs. tr = trace st @ replicate n Fetch"
  using assms
proof (induction gs arbitrary: st)
  case Nil
  then show ?case by (fastforce simp: upcoming_def filter_empty_conv)
next
  case (Cons g gs)
  from Cons.prems have lapsed: "upcoming st = []"
    by (fastforce simp: upcoming_def filter_empty_conv)
  show ?case
  proof (cases "fetch_stock strptime g")
    case (Inl e)
    then show ?thesis using lapsed
      by (auto simp: iteration_lapsed intro: exI [of _ 1])
  next
    case (Inr dt)
    obtain data t where dt: "dt = (data, t)" by (cases dt)
    let ?s = "st\<lparr>server_time := t, trace := trace st @ [Fetch]\<rparr>"
    from Inr dt lapsed have step: "iteration strptime fromisoformat st g = Inr ?s"
      by (simp add: iteration_lapsed)
    from Cons.prems Inr dt have "T \<le> t" by auto
    with Cons.prems have
      "case monitor_loop strptime fromisoformat gs ?s of
           Running st' \<Rightarrow> last_start st' = last_start ?s \<and> expected_ends st' = expected_ends ?s \<and>
                          upcoming st' = [] \<and> trace st' = trace ?s @ replicate (length gs) Fetch
         | Aborted e tr \<Rightarrow> \<exists>n\<le>length gs. tr = trace ?s @ replicate n Fetch"
      by (intro Cons.IH) auto
    then show ?thesis using step
      by (auto simp: replicate_append_same split: outcome.splits intro: exI [of _ "Suc _"])
  qed
qed

text \<open>
  C6. When the upcoming list is empty, the iteration only fetches: markers and
  predicted ends are what they were, the only event is the fetch (no listing, no
  alert), and after a successful fetch the state differs in the server time alone,
  whatever the snapshot holds. Hence, over any number of further iterations whose
  fetches report server times not before the current one, markers and predicted ends
  never change, the upcoming list stays empty, and the run consists of fetches alone.
\<close>

theorem lapsed_refetch_skips_detection:
  assumes "upcoming st = []"
  shows "last_start (state_of (iteration strptime fromisoformat st g)) = last_start st \<and>
         expected_ends (state_of (iteration strptime fromisoformat st g)) = expected_ends st \<and>
         trace (state_of (iteration strptime fromisoformat st g)) = trace st @ [Fetch] \<and>
         (\<forall>data t. fetch_stock strptime g = Inr (data, t) \<longrightarrow>
            iteration strptime fromisoformat st g =
              Inr (st\<lparr>server_time := t, trace := trace st @ [Fetch]\<rparr>)) \<and>
         ((\<forall>g \<in> set gs. \<forall>data t. fetch_stock strptime g = Inr (data, t) \<longrightarrow> server_time st \<le> t) \<longrightarrow>
            (case monitor_loop strptime fromisoformat gs st of
               Running st' \<Rightarrow>
                 last_start st' = last_start st \<and> expected_ends st' = expected_ends st \<and>
                 upcoming st' = [] \<and> trace st' = trace st @ replicate (length gs) Fetch
             | Aborted e tr \<Rightarrow> \<exists>n\<le>length gs. tr = trace st @ replicate n Fetch))"
proof -
  from assms have le: "\<forall>e \<in> set (map snd (expected_ends st)). e \<le> server_time st"
    by (fastforce simp: upcoming_def filter_empty_conv)
  have "case monitor_loop strptime fromisoformat gs st of
               Running st' \<Rightarrow>
                 last_start st' = last_start st \<and> expected_ends st' = expected_ends st \<and>
                 upcoming st' = [] \<and> trace st' = trace st @ replicate (length gs) Fetch
             | Aborted e tr \<Rightarrow> \<exists>n\<le>length gs. tr = trace st @ replicate n Fetch"
    if "\<forall>g \<in> set gs. \<forall>data t. fetch_stock strptime g = Inr (data, t) \<longrightarrow> server_time st \<le> t"
    using le that by (intro monitor_loop_lapsed [where T = "server_time st"]) auto
  moreover have "last_start (state_of (iteration strptime fromisoformat st g)) = last_start st"
    "expected_ends (state_of (iteration strptime fromisoformat st g)) = expected_ends st"
    "trace (state_of (iteration strptime fromisoformat st g)) = trace st @ [Fetch]"
    using assms by (simp_all add: iteration_lapsed state_of_def split: sum.splits prod.splits)
  moreover have "\<forall>data t. fetch_stock strptime g = Inr (data, t) \<longrightarrow>
            iteration strptime fromisoformat st g =
              Inr (st\<lparr>server_time := t, trace := trace st @ [Fetch]\<rparr>)"
    using assms by (simp add: iteration_lapsed)
  ultimately show ?thesis by blast
qed

subsection \<open>Fetch failures\<close>

lemma fetch_stock_fails_iff:
  "(\<exists>e. fetch_stock strptime g = Inl e) \<longleftrightarrow>
     (g = Get_raises \<or>
      (\<exists>r. g = Get_returns r \<and>
         (400 \<le> status r \<or> json r = None \<or> header_Date r = None \<or>
          (\<exists>h. header_Date r = Some h \<and> strptime h = None))))"
  by (cases g) (auto simp: fetch_stock_def split: option.splits)

text \<open>
  C8. \<open>fetch_stock\<close> raises exactly when \<open>session.get\<close> raises, the status is 400 or
  above, the body does not decode, or the \<open>Date\<close> header is missing or does not parse.
  When it raises inside the loop, the iteration raises the same error with markers,
  predicted ends and server time unchanged, the fetch attempt being the last event;
  the run is over with that error whatever further answers the server would have given
  (no retry). The same holds for the initial fetch.
\<close>

theorem fetch_failure_aborts:
  "((\<exists>e. fetch_stock strptime g = Inl e) \<longleftrightarrow>
     (g = Get_raises \<or>
      (\<exists>r. g = Get_returns r \<and>
         (400 \<le> status r \<or> json r = None \<or> header_Date r = None \<or>
          (\<exists>h. header_Date r = Some h \<and> strptime h = None))))) \<and>
   (fetch_stock strptime g = Inl e \<longrightarrow>
      (\<exists>st'. iteration strptime fromisoformat st g = Inl (e, st') \<and>
         last_start st' = last_start st \<and> expected_ends st' = expected_ends st \<and>
         server_time st' = server_time st \<and>
         (trace st' = trace st @ [Fetch] \<or> (\<exists>w. trace st' = trace st @ [Sleep w, Fetch])) \<and>
         monitor_loop strptime fromisoformat (g # gs) st = Aborted e (trace st')) \<and>
      monitor strptime fromisoformat g gs = Aborted e [Fetch])"
  using fetch_stock_fails_iff [of strptime g]
  by (auto simp: iteration_fetch_fails monitor_def)


subsection \<open>A malformed \<open>Date_End\<close>\<close>

lemma track_categories_append:
  "track_categories fromisoformat data (pre @ post) su =
     (case track_categories fromisoformat data pre su of
        Inl err \<Rightarrow> Inl err
      | Inr su' \<Rightarrow> track_categories fromisoformat data post su')"
  by (induction pre arbitrary: su) (simp_all split: sum.splits)

lemma initial_categories_append:
  "initial_categories fromisoformat data (pre @ post) st =
     (case initial_categories fromisoformat data pre st of
        Inl err \<Rightarrow> Inl err
      | Inr st' \<Rightarrow> initial_categories fromisoformat data post st')"
  by (induction pre arbitrary: st) (simp_all split: sum.splits)

lemma track_category_malformed:
  assumes "data_get data cat = it0 # rest"
    and "Some (Date_Start it0) \<noteq> last_start_get (last_start st) cat"
    and "parse_end fromisoformat (Date_End it0) = None"
  shows "track_category fromisoformat data cat (st, u) =
           Inl (ValueError, st\<lparr>last_start := AList.update cat (Some (Date_Start it0)) (last_start st)\<rparr>)"
  using assms by (simp add: track_category_def Let_def)

lemma initial_category_malformed:
  assumes "data_get data cat = it0 # rest"
    and "parse_end fromisoformat (Date_End it0) = None"
  shows "initial_category fromisoformat data cat st =
           Inl (ValueError, st\<lparr>last_start := AList.update cat (Some (Date_Start it0)) (last_start st)\<rparr>)"
  using assms by (simp add: initial_category_def Let_def)

text \<open>
  C7, amended. Let the fetch of an iteration succeed and let a category have a
  non-empty item list whose first record's \<open>Date_End\<close> does not parse. If the categories
  before it in \<open>CATEGORIES\<close> were processed without error and its marker differs from the
  stored one, the iteration raises \<open>ValueError\<close> (the failure is signalled, no prediction
  is made up): predicted ends and events are those left by the earlier categories, so
  the failing category and all later ones get no prediction, no listing and no alert,
  and the run is over with \<open>ValueError\<close> whatever the server would have answered next.
  In the initial pass the same list aborts \<open>monitor\<close> in the same way.
\<close>

theorem malformed_end_aborts:
  assumes cats: "CATEGORIES = pre @ cat # post"
    and items: "data_get data cat = it0 # rest"
    and malformed: "parse_end fromisoformat (Date_End it0) = None"
    and fetched: "fetch_stock strptime g = Inr (data, t)"
  shows
   "(upcoming st \<noteq> [] \<longrightarrow>
     track_categories fromisoformat data pre
        (st\<lparr>trace := trace st @ [Sleep (min_list (upcoming st) - server_time st), Fetch],
            server_time := t\<rparr>, False) = Inr (st1, u1) \<longrightarrow>
     Some (Date_Start it0) \<noteq> last_start_get (last_start st1) cat \<longrightarrow>
       (\<exists>st'. iteration strptime fromisoformat st g = Inl (ValueError, st') \<and>
              expected_ends st' = expected_ends st1 \<and> trace st' = trace st1) \<and>
       monitor_loop strptime fromisoformat (g # gs) st = Aborted ValueError (trace st1)) \<and>
    (initial_categories fromisoformat data pre
        \<lparr>last_start = map (\<lambda>cat. (cat, None)) CATEGORIES, expected_ends = [],
         server_time = t, trace = [Fetch]\<rparr> = Inr st0 \<longrightarrow>
       monitor strptime fromisoformat g gs = Aborted ValueError (trace st0))"
proof -
  have loop: "(\<exists>st'. iteration strptime fromisoformat st g = Inl (ValueError, st') \<and>
              expected_ends st' = expected_ends st1 \<and> trace st' = trace st1) \<and>
       monitor_loop strptime fromisoformat (g # gs) st = Aborted ValueError (trace st1)"
    if ne: "upcoming st \<noteq> []"
      and pre: "track_categories fromisoformat data pre
        (st\<lparr>trace := trace st @ [Sleep (min_list (upcoming st) - server_time st), Fetch],
            server_time := t\<rparr>, False) = Inr (st1, u1)"
      and differs: "Some (Date_Start it0) \<noteq> last_start_get (last_start st1) cat"
  proof -
    let ?st' = "st1\<lparr>last_start := AList.update cat (Some (Date_Start it0)) (last_start st1)\<rparr>"
    have "track_categories fromisoformat data CATEGORIES
        (st\<lparr>trace := trace st @ [Sleep (min_list (upcoming st) - server_time st), Fetch],
            server_time := t\<rparr>, False) = Inl (ValueError, ?st')"
      unfolding cats
      by (simp add: track_categories_append pre track_category_malformed [OF items differs malformed])
    then have "iteration strptime fromisoformat st g = Inl (ValueError, ?st')"
      using ne fetched by (simp add: iteration_tracks)
    then show ?thesis by simp
  qed
  have init: "monitor strptime fromisoformat g gs = Aborted ValueError (trace st0)"
    if pre: "initial_categories fromisoformat data pre
        \<lparr>last_start = map (\<lambda>cat. (cat, None)) CATEGORIES, expected_ends = [],
         server_time = t, trace = [Fetch]\<rparr> = Inr st0"
  proof -
    have "initial_categories fromisoformat data (pre @ cat # post)
        \<lparr>last_start = map (\<lambda>cat. (cat, None)) CATEGORIES, expected_ends = [],
         server_time = t, trace = [Fetch]\<rparr> =
        Inl (ValueError, st0\<lparr>last_start := AList.update cat (Some (Date_Start it0)) (last_start st0)\<rparr>)"
      by (simp add: initial_categories_append pre initial_category_malformed [OF items malformed])
    then show ?thesis using fetched cats by (simp add: monitor_def)
  qed
  from loop init show ?thesis by blast
qed

section \<open>The properties on example runs\<close>

text \<open>
  The library parsers are given by tables; instants count microseconds from
  2025-07-01T00:00:00Z.
\<close>

lemmas ex_defs = ex_strptime_def ex_fromisoformat_def ex_gear_def ex_gear_bad_def ex_egg_def
  ex_data_def ex_data_bad_def ex_get_def ex_state_def ex_near_def ex_lapsed_def ex_after_def ex_failed_def

lemmas monitor_defs = fetch_stock_def data_get_def last_start_get_def replace_Z_def parse_end_def
  report_new_def report_initial_def track_category_def initial_category_def upcoming_def iteration_def
  monitor_def CATEGORIES_def POLL_AFTER_END_def seconds_def Let_def

lemmas ex_more = ex_date_def ex_date_soon_def ex_date_late_def ex_unavailable_def ex_initial_def

subsection \<open>Evaluating the example runs\<close>

lemma ex_parse:
  "parse_end ex_fromisoformat ''2025-07-01T00:05:00Z'' = Some 300000000"
  "parse_end ex_fromisoformat ''2025-07-01T00:10:00Z'' = Some 600000000"
  "parse_end ex_fromisoformat ''soon'' = None"
  by (simp_all add: parse_end_def replace_Z_def ex_fromisoformat_def)

lemma ex_data_get:
  "data_get ex_data ''seed_stock'' = ex_items"
  "data_get ex_data ''gear_stock'' = ex_gear"
  "data_get ex_data ''egg_stock'' = []"
  "data_get ex_data_bad ''seed_stock'' = ex_items"
  "data_get ex_data_bad ''gear_stock'' = ex_gear_bad"
  "data_get ex_data_bad ''egg_stock'' = ex_egg"
  by (simp_all add: data_get_def ex_data_def ex_data_bad_def)

lemma ex_upcoming:
  "upcoming ex_state = [60000000, 600000000, 900000000]"
  "upcoming ex_near = [1000000, 600000000, 900000000]"
  "upcoming ex_lapsed = []"
  "upcoming ex_after = [300000000, 600000000, 900000000]"
  by (simp_all add: upcoming_def ex_state_def ex_near_def ex_lapsed_def ex_after_def)

lemmas ex_all = ex_defs ex_items_def ex_agg_def

lemmas eval_defs = monitor_defs aggregate_by_item_id_def aggregate_step_def TARGET_def

lemma ex_fetches:
  "fetch_stock ex_strptime (ex_get data ex_date) = Inr (data, 60000000)"
  "fetch_stock ex_strptime (ex_get data ex_date_soon) = Inr (data, 1000000)"
  "fetch_stock ex_strptime (ex_get data ex_date_late) = Inr (data, 900000000)"
  "fetch_stock ex_strptime ex_unavailable = Inl (ResponseError 503)"
  by (simp_all add: fetch_stock_def ex_get_def ex_strptime_def ex_more)

lemma ex_iterations:
  "iteration ex_strptime ex_fromisoformat ex_state (ex_get ex_data ex_date) = Inr ex_after"
  "iteration ex_strptime ex_fromisoformat ex_state (ex_get ex_data_bad ex_date) = Inl (ValueError, ex_failed)"
  "iteration ex_strptime ex_fromisoformat ex_near (ex_get ex_data ex_date_soon) =
     Inr (ex_near\<lparr>server_time := 1000000,
                  trace := [Sleep 1000000, Fetch, Sleep (seconds POLL_AFTER_END)]\<rparr>)"
  "iteration ex_strptime ex_fromisoformat ex_lapsed (ex_get ex_data ex_date_late) =
     Inr (ex_lapsed\<lparr>trace := [Fetch]\<rparr>)"
  by (simp_all add: ex_all ex_more eval_defs)

lemma ex_loops:
  "monitor_loop ex_strptime ex_fromisoformat
     [ex_get ex_data ex_date_late, ex_get ex_data ex_date_late] ex_lapsed =
     Running (ex_lapsed\<lparr>trace := [Fetch, Fetch]\<rparr>)"
  "monitor_loop ex_strptime ex_fromisoformat
     [ex_get ex_data_bad ex_date, ex_get ex_data ex_date] ex_state =
     Aborted ValueError (trace ex_failed)"
  by (simp_all add: ex_all ex_more eval_defs)

lemma ex_track_near:
  "track_categories ex_fromisoformat ex_data CATEGORIES
     (ex_near\<lparr>trace := trace ex_near @ [Sleep (min_list (upcoming ex_near) - server_time ex_near), Fetch],
              server_time := 1000000\<rparr>, False) =
   Inr (ex_near\<lparr>trace := trace ex_near @ [Sleep (min_list (upcoming ex_near) - server_time ex_near), Fetch],
              server_time := 1000000\<rparr>, False)"
  by (simp add: ex_all ex_more eval_defs)

lemma ex_track_pre:
  "track_categories ex_fromisoformat ex_data_bad [''seed_stock'']
     (ex_state\<lparr>trace := trace ex_state @ [Sleep (min_list (upcoming ex_state) - server_time ex_state), Fetch],
               server_time := 60000000\<rparr>, False) = Inr (ex_after, True)"
  by (simp add: ex_all ex_more eval_defs)

lemma ex_initial_pre:
  "initial_categories ex_fromisoformat ex_data_bad [''seed_stock'']
     \<lparr>last_start = map (\<lambda>cat. (cat, None)) CATEGORIES, expected_ends = [],
      server_time = 60000000, trace = [Fetch]\<rparr> = Inr ex_initial"
  by (simp add: ex_all ex_more eval_defs)

subsection \<open>The tracker on one category\<close>

text \<open>
  The seed category comes back with marker \<open>S1\<close> while \<open>S0\<close> is stored: rotation, new
  prediction at 300 s, alert for the beanstalk.
\<close>

lemma ex_items_Cons: "hd ex_items # tl ex_items = ex_items"
  by (simp add: ex_items_def)

theorem track_category_rotation_witness:
  "data_get ex_data ''seed_stock'' = ex_items \<and>
   last_start_get (last_start ex_state) ''seed_stock'' = Some ''S0'' \<and>
   Date_Start (hd ex_items) = ''S1'' \<and>
   parse_end ex_fromisoformat (Date_End (hd ex_items)) = Some 300000000 \<and>
   (\<exists>st'. track_category ex_fromisoformat ex_data ''seed_stock'' (ex_state, False) = Inr (st', True) \<and>
      last_start_get (last_start st') ''seed_stock'' = Some ''S1'' \<and>
      map_of (expected_ends st') ''seed_stock'' = Some 300000000 \<and>
      trace st' = [Listing ''seed_stock'' ''S1'' ex_agg, Alert ''seed_stock'' [ex_agg ! 1]])"
proof -
  have items: "data_get ex_data ''seed_stock'' = hd ex_items # tl ex_items"
    by (simp add: ex_data_get ex_items_Cons)
  have stored: "last_start_get (last_start ex_state) ''seed_stock'' = Some ''S0''"
    by (simp add: ex_state_def last_start_get_def)
  have start: "Date_Start (hd ex_items) = ''S1''" by (simp add: ex_items_def)
  have differs: "Some (Date_Start (hd ex_items)) \<noteq> last_start_get (last_start ex_state) ''seed_stock''"
    by (simp add: stored start)
  have parses: "parse_end ex_fromisoformat (Date_End (hd ex_items)) = Some 300000000"
    by (simp add: ex_items_def ex_parse)
  from track_category_rotation [OF items differs parses, of False]
  obtain st' where
    r: "track_category ex_fromisoformat ex_data ''seed_stock'' (ex_state, False) = Inr (st', True)"
    and m: "last_start_get (last_start st') ''seed_stock'' = Some (Date_Start (hd ex_items))"
    and e: "map_of (expected_ends st') ''seed_stock'' = Some 300000000"
    and tr: "trace st' = trace ex_state @
              Listing ''seed_stock'' (Date_Start (hd ex_items))
                (aggregate_by_item_id (hd ex_items # tl ex_items)) #
              (if found (aggregate_by_item_id (hd ex_items # tl ex_items)) \<noteq> []
               then [Alert ''seed_stock'' (found (aggregate_by_item_id (hd ex_items # tl ex_items)))]
               else [NoTarget ''seed_stock''])"
    by blast
  from tr have "trace st' = [Listing ''seed_stock'' ''S1'' ex_agg, Alert ''seed_stock'' [ex_agg ! 1]]"
    by (simp add: ex_items_Cons aggregate_ex_items found_ex_agg start ex_state_def)
  with r m e start stored parses show ?thesis by (simp add: ex_data_get)
qed

text \<open>The gear category comes back with the stored marker \<open>G1\<close>: nothing changes.\<close>

theorem track_category_same_marker_witness:
  "data_get ex_data ''gear_stock'' = ex_gear \<and>
   Some (Date_Start (hd ex_gear)) = last_start_get (last_start ex_state) ''gear_stock'' \<and>
   track_category ex_fromisoformat ex_data ''gear_stock'' (ex_state, False) = Inr (ex_state, False)"
proof -
  have items: "data_get ex_data ''gear_stock'' = hd ex_gear # tl ex_gear"
    by (simp add: ex_data_get) (simp add: ex_gear_def)
  have same: "Some (Date_Start (hd ex_gear)) = last_start_get (last_start ex_state) ''gear_stock''"
    by (simp add: ex_gear_def ex_state_def last_start_get_def)
  from track_category_same_marker [OF items same, of ex_fromisoformat False] same
  show ?thesis by (simp add: ex_data_get)
qed

subsection \<open>The scheduler\<close>

text \<open>
  With predictions at 60 s, 600 s and 900 s and server time 0 the iteration sleeps 60 s
  and fetches; with server time 900 s nothing is upcoming and it fetches at once.
\<close>

theorem scheduling_decision_witness:
  "upcoming ex_state = [60000000, 600000000, 900000000] \<and>
   (\<exists>evs. trace (state_of (iteration ex_strptime ex_fromisoformat ex_state (ex_get ex_data ex_date))) =
      Sleep 60000000 # Fetch # evs) \<and>
   upcoming ex_lapsed = [] \<and>
   trace (state_of (iteration ex_strptime ex_fromisoformat ex_lapsed (ex_get ex_data ex_date))) = [Fetch]"
proof -
  from scheduling_decision [of ex_state ex_strptime ex_fromisoformat "ex_get ex_data ex_date"]
  have "\<exists>evs. trace (state_of (iteration ex_strptime ex_fromisoformat ex_state (ex_get ex_data ex_date))) =
      Sleep 60000000 # Fetch # evs"
    by (simp add: ex_upcoming) (auto simp: ex_state_def)
  moreover from scheduling_decision [of ex_lapsed ex_strptime ex_fromisoformat "ex_get ex_data ex_date"]
  have "trace (state_of (iteration ex_strptime ex_fromisoformat ex_lapsed (ex_get ex_data ex_date))) = [Fetch]"
    by (simp add: ex_upcoming) (simp add: ex_lapsed_def ex_state_def)
  ultimately show ?thesis by (simp add: ex_upcoming)
qed


text \<open>
  The fallback wait against the claim of C4. With the next predicted end 1 s ahead and
  no rotation in the snapshot fetched then, the iteration sleeps the computed 1 s, fetches,
  and sleeps the fallback 5 s, which is not less than the computed wait. With every
  prediction lapsed, two iterations in a row fetch with no sleep between them.
\<close>

theorem fallback_wait_counterexample:
  "iteration ex_strptime ex_fromisoformat ex_near (ex_get ex_data ex_date_soon) =
     Inr (ex_near\<lparr>server_time := 1000000,
                  trace := [Sleep 1000000, Fetch, Sleep (seconds POLL_AFTER_END)]\<rparr>) \<and>
   \<not> seconds POLL_AFTER_END < 1000000 \<and>
   monitor_loop ex_strptime ex_fromisoformat
     [ex_get ex_data ex_date_late, ex_get ex_data ex_date_late] ex_lapsed =
     Running (ex_lapsed\<lparr>trace := [Fetch, Fetch]\<rparr>)"
  by (simp add: ex_iterations ex_loops del: monitor_loop.simps) (simp add: seconds_def POLL_AFTER_END_def)

text \<open>The same two runs, through the theorem on the waits of an iteration.\<close>

theorem waits_of_an_iteration_witness:
  "upcoming ex_near = [1000000, 600000000, 900000000] \<and>
   fetch_stock ex_strptime (ex_get ex_data ex_date_soon) = Inr (ex_data, 1000000) \<and>
   iteration ex_strptime ex_fromisoformat ex_near (ex_get ex_data ex_date_soon) =
     Inr (ex_near\<lparr>server_time := 1000000, trace := [Sleep 1000000, Fetch, Sleep 5000000]\<rparr>) \<and>
   upcoming ex_lapsed = [] \<and>
   trace (state_of (iteration ex_strptime ex_fromisoformat ex_lapsed (ex_get ex_data ex_date_late)))
     = [Fetch]"
proof -
  have ne: "upcoming ex_near \<noteq> []" by (simp add: ex_upcoming)
  from waits_of_an_iteration [of ex_near ex_strptime "ex_get ex_data ex_date_soon" ex_data 1000000
      ex_fromisoformat] ne ex_fetches(2) [of ex_data] ex_track_near
  have "iteration ex_strptime ex_fromisoformat ex_near (ex_get ex_data ex_date_soon) =
     Inr (ex_near\<lparr>server_time := 1000000, trace := [Sleep 1000000, Fetch, Sleep 5000000]\<rparr>)"
    by (simp add: ex_upcoming) (simp add: ex_near_def)
  moreover
  from waits_of_an_iteration [of ex_lapsed ex_strptime "ex_get ex_data ex_date_late" ex_data 0
      ex_fromisoformat ex_lapsed]
  have "trace (state_of (iteration ex_strptime ex_fromisoformat ex_lapsed (ex_get ex_data ex_date_late)))
     = [Fetch]"
    by (simp add: ex_upcoming) (simp add: ex_lapsed_def ex_state_def)
  ultimately show ?thesis by (simp add: ex_upcoming ex_fetches)
qed

text \<open>
  An empty list against the claim of C5. The egg category has a prediction at 900 s and
  is fetched with an empty item list at 60 s: after the iteration the prediction is
  still stored and is still in the upcoming list.
\<close>

theorem empty_list_counterexample:
  "data_get ex_data ''egg_stock'' = [] \<and>
   map_of (expected_ends ex_state) ''egg_stock'' = Some 900000000 \<and>
   iteration ex_strptime ex_fromisoformat ex_state (ex_get ex_data ex_date) = Inr ex_after \<and>
   map_of (expected_ends ex_after) ''egg_stock'' = Some 900000000 \<and>
   upcoming ex_after = [300000000, 600000000, 900000000]"
  by (simp add: ex_data_get ex_iterations ex_upcoming) (simp add: ex_state_def ex_after_def)

text \<open>The same run, through the theorem on empty item lists.\<close>

theorem empty_list_keeps_prediction_witness:
  "data_get ex_data ''egg_stock'' = [] \<and>
   fetch_stock ex_strptime (ex_get ex_data ex_date) = Inr (ex_data, 60000000) \<and>
   track_category ex_fromisoformat ex_data ''egg_stock'' (ex_state, False) = Inr (ex_state, False) \<and>
   map_of (expected_ends (state_of (iteration ex_strptime ex_fromisoformat ex_state (ex_get ex_data ex_date))))
     ''egg_stock'' = Some 900000000 \<and>
   last_start_get
     (last_start (state_of (iteration ex_strptime ex_fromisoformat ex_state (ex_get ex_data ex_date))))
     ''egg_stock'' = Some ''E1'' \<and>
   900000000 \<in> set (upcoming ex_after) \<and>
   ''egg_stock'' \<in> dom (map_of (expected_ends
      (state_of (iteration ex_strptime ex_fromisoformat ex_state (ex_get ex_data ex_date)))))"
proof -
  note k = empty_list_keeps_prediction [of ex_data "''egg_stock''" ex_fromisoformat ex_state False
      ex_strptime "ex_get ex_data ex_date" 60000000]
  have emp: "data_get ex_data ''egg_stock'' = []" by (simp add: ex_data_get)
  have f: "fetch_stock ex_strptime (ex_get ex_data ex_date) = Inr (ex_data, 60000000)"
    by (simp add: ex_fetches)
  have e: "map_of (expected_ends ex_state) ''egg_stock'' = Some 900000000"
    and m: "last_start_get (last_start ex_state) ''egg_stock'' = Some ''E1''"
    and d: "''egg_stock'' \<in> dom (map_of (expected_ends ex_state))"
    by (simp_all add: ex_state_def last_start_get_def)
  from k emp have 1: "track_category ex_fromisoformat ex_data ''egg_stock'' (ex_state, False)
      = Inr (ex_state, False)" by blast
  from k emp f e m have 2: "map_of (expected_ends (state_of (iteration ex_strptime ex_fromisoformat ex_state (ex_get ex_data ex_date))))
     ''egg_stock'' = Some 900000000"
    and 3: "last_start_get
     (last_start (state_of (iteration ex_strptime ex_fromisoformat ex_state (ex_get ex_data ex_date))))
     ''egg_stock'' = Some ''E1''" by simp_all
  from k emp f e ex_iterations(1) have 4: "900000000 \<in> set (upcoming ex_after)" by simp
  from k d have 5: "''egg_stock'' \<in> dom (map_of (expected_ends
      (state_of (iteration ex_strptime ex_fromisoformat ex_state (ex_get ex_data ex_date)))))"
    by blast
  from emp f 1 2 3 4 5 show ?thesis by simp
qed

text \<open>
  Every prediction has lapsed at 900 s. The snapshot fetched then holds a new seed
  session (marker \<open>S1\<close> against the stored \<open>S0\<close>), yet the iteration changes the server time
  only, and a second iteration does the same.
\<close>

theorem lapsed_refetch_witness:
  "upcoming ex_lapsed = [] \<and>
   fetch_stock ex_strptime (ex_get ex_data ex_date_late) = Inr (ex_data, 900000000) \<and>
   server_time ex_lapsed \<le> 900000000 \<and>
   data_get ex_data ''seed_stock'' = ex_items \<and>
   Some (Date_Start (hd ex_items)) \<noteq> last_start_get (last_start ex_lapsed) ''seed_stock'' \<and>
   iteration ex_strptime ex_fromisoformat ex_lapsed (ex_get ex_data ex_date_late) =
     Inr (ex_lapsed\<lparr>server_time := 900000000, trace := [Fetch]\<rparr>) \<and>
   (\<exists>st'. monitor_loop ex_strptime ex_fromisoformat
            [ex_get ex_data ex_date_late, ex_get ex_data ex_date_late] ex_lapsed = Running st' \<and>
          last_start st' = last_start ex_lapsed \<and> expected_ends st' = expected_ends ex_lapsed \<and>
          upcoming st' = [] \<and> trace st' = [Fetch, Fetch])"
proof -
  have lapsed: "upcoming ex_lapsed = []" by (simp add: ex_upcoming)
  have f: "fetch_stock ex_strptime (ex_get ex_data ex_date_late) = Inr (ex_data, 900000000)"
    by (simp add: ex_fetches)
  have le: "server_time ex_lapsed \<le> 900000000" and tr: "trace ex_lapsed = []"
    by (simp_all add: ex_lapsed_def ex_state_def)
  have rot: "Some (Date_Start (hd ex_items)) \<noteq> last_start_get (last_start ex_lapsed) ''seed_stock''"
    by (simp add: ex_items_def ex_lapsed_def ex_state_def last_start_get_def)
  note k = lapsed_refetch_skips_detection [OF lapsed, of ex_strptime ex_fromisoformat
      "ex_get ex_data ex_date_late" "[ex_get ex_data ex_date_late, ex_get ex_data ex_date_late]"]
  from k f tr have 1: "iteration ex_strptime ex_fromisoformat ex_lapsed (ex_get ex_data ex_date_late) =
     Inr (ex_lapsed\<lparr>server_time := 900000000, trace := [Fetch]\<rparr>)" by simp
  from k f le tr have 2: "\<exists>st'. monitor_loop ex_strptime ex_fromisoformat
            [ex_get ex_data ex_date_late, ex_get ex_data ex_date_late] ex_lapsed = Running st' \<and>
          last_start st' = last_start ex_lapsed \<and> expected_ends st' = expected_ends ex_lapsed \<and>
          upcoming st' = [] \<and> trace st' = [Fetch, Fetch]"
    by (simp add: ex_loops del: monitor_loop.simps)
  from lapsed f le rot 1 2 show ?thesis by (simp add: ex_data_get)
qed

subsection \<open>A malformed \<open>Date_End\<close> in the gear category\<close>

text \<open>
  Against the claim of C7. The seed category is processed; the gear category, with a
  new marker \<open>G2\<close> and an unparseable \<open>Date_End\<close>, raises. At that point the stored gear
  marker is already \<open>G2\<close>; the egg category, which has a new session with a watchlist item
  in stock, is not processed; and the run is over, the second answer never fetched.
\<close>

theorem malformed_end_counterexample:
  "data_get ex_data_bad ''gear_stock'' = ex_gear_bad \<and>
   parse_end ex_fromisoformat (Date_End (hd ex_gear_bad)) = None \<and>
   iteration ex_strptime ex_fromisoformat ex_state (ex_get ex_data_bad ex_date) =
     Inl (ValueError, ex_failed) \<and>
   last_start_get (last_start ex_state) ''gear_stock'' = Some ''G1'' \<and>
   last_start_get (last_start ex_failed) ''gear_stock'' = Some ''G2'' \<and>
   data_get ex_data_bad ''egg_stock'' = ex_egg \<and>
   Some (Date_Start (hd ex_egg)) \<noteq> last_start_get (last_start ex_failed) ''egg_stock'' \<and>
   found (aggregate_by_item_id ex_egg) = ex_egg \<and>
   trace ex_failed =
     [Sleep 60000000, Fetch, Listing ''seed_stock'' ''S1'' ex_agg, Alert ''seed_stock'' [ex_agg ! 1]] \<and>
   monitor_loop ex_strptime ex_fromisoformat
     [ex_get ex_data_bad ex_date, ex_get ex_data ex_date] ex_state =
     Aborted ValueError (trace ex_failed)"
  by (simp add: ex_data_get ex_iterations ex_loops del: monitor_loop.simps)
     (simp add: ex_gear_bad_def ex_parse ex_state_def ex_failed_def ex_after_def ex_egg_def
        last_start_get_def aggregate_by_item_id_def aggregate_step_def TARGET_def)

text \<open>The same snapshot, in the loop and as the initial snapshot, through the theorem.\<close>

theorem malformed_end_aborts_witness:
  "CATEGORIES = [''seed_stock''] @ ''gear_stock'' # [''egg_stock''] \<and>
   data_get ex_data_bad ''gear_stock'' = ex_gear_bad \<and>
   parse_end ex_fromisoformat (Date_End (hd ex_gear_bad)) = None \<and>
   fetch_stock ex_strptime (ex_get ex_data_bad ex_date) = Inr (ex_data_bad, 60000000) \<and>
   upcoming ex_state = [60000000, 600000000, 900000000] \<and>
   Some (Date_Start (hd ex_gear_bad)) \<noteq> last_start_get (last_start ex_after) ''gear_stock'' \<and>
   (\<exists>st'. iteration ex_strptime ex_fromisoformat ex_state (ex_get ex_data_bad ex_date) =
            Inl (ValueError, st') \<and>
          expected_ends st' = expected_ends ex_after \<and> trace st' = trace ex_after) \<and>
   monitor_loop ex_strptime ex_fromisoformat
     [ex_get ex_data_bad ex_date, ex_get ex_data ex_date] ex_state =
     Aborted ValueError (trace ex_after) \<and>
   monitor ex_strptime ex_fromisoformat (ex_get ex_data_bad ex_date) [ex_get ex_data ex_date] =
     Aborted ValueError (trace ex_initial)"
proof -
  have cats: "CATEGORIES = [''seed_stock''] @ ''gear_stock'' # [''egg_stock'']"
    by (simp add: CATEGORIES_def)
  have items: "data_get ex_data_bad ''gear_stock'' = hd ex_gear_bad # tl ex_gear_bad"
    by (simp add: ex_data_get) (simp add: ex_gear_bad_def)
  have malformed: "parse_end ex_fromisoformat (Date_End (hd ex_gear_bad)) = None"
    by (simp add: ex_gear_bad_def ex_parse)
  have fetched: "fetch_stock ex_strptime (ex_get ex_data_bad ex_date) = Inr (ex_data_bad, 60000000)"
    by (simp add: ex_fetches)
  have ne: "upcoming ex_state \<noteq> []" by (simp add: ex_upcoming)
  have differs: "Some (Date_Start (hd ex_gear_bad)) \<noteq> last_start_get (last_start ex_after) ''gear_stock''"
    by (simp add: ex_gear_bad_def ex_after_def last_start_get_def)
  note k = malformed_end_aborts [OF cats items malformed fetched, of ex_state ex_after True
      "[ex_get ex_data ex_date]" ex_initial]
  from k ne ex_track_pre differs ex_initial_pre
  have "(\<exists>st'. iteration ex_strptime ex_fromisoformat ex_state (ex_get ex_data_bad ex_date) =
            Inl (ValueError, st') \<and>
          expected_ends st' = expected_ends ex_after \<and> trace st' = trace ex_after) \<and>
   monitor_loop ex_strptime ex_fromisoformat
     [ex_get ex_data_bad ex_date, ex_get ex_data ex_date] ex_state =
     Aborted ValueError (trace ex_after) \<and>
   monitor ex_strptime ex_fromisoformat (ex_get ex_data_bad ex_date) [ex_get ex_data ex_date] =
     Aborted ValueError (trace ex_initial)"
    by simp
  with cats malformed fetched differs show ?thesis by (simp add: ex_data_get ex_upcoming)
qed

subsection \<open>A failing fetch\<close>

text \<open>The server answers 503: the run ends there, the next answer is never fetched.\<close>

theorem fetch_failure_aborts_witness:
  "fetch_stock ex_strptime ex_unavailable = Inl (ResponseError 503) \<and>
   iteration ex_strptime ex_fromisoformat ex_state ex_unavailable =
     Inl (ResponseError 503, ex_state\<lparr>trace := [Sleep 60000000, Fetch]\<rparr>) \<and>
   monitor_loop ex_strptime ex_fromisoformat [ex_unavailable, ex_get ex_data ex_date] ex_state =
     Aborted (ResponseError 503) [Sleep 60000000, Fetch] \<and>
   monitor ex_strptime ex_fromisoformat ex_unavailable [ex_get ex_data ex_date] =
     Aborted (ResponseError 503) [Fetch]"
proof -
  have f: "fetch_stock ex_strptime ex_unavailable = Inl (ResponseError 503)"
    by (simp add: ex_fetches)
  have it: "iteration ex_strptime ex_fromisoformat ex_state ex_unavailable =
     Inl (ResponseError 503, ex_state\<lparr>trace := [Sleep 60000000, Fetch]\<rparr>)"
    by (simp add: ex_all ex_more eval_defs)
  from fetch_failure_aborts [of ex_strptime ex_unavailable "ResponseError 503" ex_fromisoformat
      ex_state "[ex_get ex_data ex_date]"] f it
  show ?thesis by auto
qed


end
